theory Spec2Isabelle
  imports Complex_Main
begin

section \<open>Exceptions, effects and collaborators\<close>

text \<open>
  The module \<^verbatim>\<open>trajectory_publisher.py\<close> defines one class, \<^verbatim>\<open>HppOutputQueue\<close>.
  Its handlers are embedded as functions on an explicit object state. Python floats are
  idealised as exact reals: rounding, overflow and NaN are outside the model. A raised
  exception is a value: every Python exception the handlers can meet is a constructor of
  \<open>exn\<close>, and \<open>CollaboratorError\<close> stands for whatever a remote call raises.
\<close>

datatype exn =
    TypeError
  | IndexError
  | ZeroDivisionError
  | UnboundLocalError
  | CollaboratorError string

fun str_exn :: "exn \<Rightarrow> string" where
  "str_exn TypeError = ''TypeError''"
| "str_exn IndexError = ''IndexError''"
| "str_exn ZeroDivisionError = ''ZeroDivisionError''"
| "str_exn UnboundLocalError = ''UnboundLocalError''"
| "str_exn (CollaboratorError m) = m"

text \<open>\<^verbatim>\<open>Discretization.Position\<close> and \<^verbatim>\<open>Discretization.Derivative\<close>.\<close>

datatype mode = Position | Derivative

text \<open>
  Everything a handler does to the outside is an event, appended to the object's trace in
  program order: log calls, \<^verbatim>\<open>rate.sleep()\<close> of a \<^verbatim>\<open>rospy.Rate\<close> of the given
  frequency, readings of \<^verbatim>\<open>rospy.Time.now()\<close> (in nanoseconds, as \<^verbatim>\<open>rospy.Time\<close>
  holds them), calls of the discretization object and the message on
  \<^verbatim>\<open>publish_done\<close>. A call is recorded when it is made, whether or not it raises.
\<close>

datatype event =
    LogInfo string
  | LogWarn string
  | LogErr string
  | RateSleep nat
  | TimeNow int
  | Compute real
  | SetPath nat
  | DeleteServant nat
  | SetJointNames "string list"
  | AddCenterOfMass string mode
  | AddOperationalFrame string mode
  | ResetTopics
  | PublishDone

text \<open>
  The collaborators are opaque, so their answers are parameters of the model: each remote
  call either raises or returns. \<open>time_now k\<close> is what the \<open>k\<close>-th call of
  \<^verbatim>\<open>rospy.Time.now()\<close> within one \<^verbatim>\<open>publish\<close> returns. \<open>arrivals k\<close> is the grid that a
  concurrent \<^verbatim>\<open>read\<close> installs while \<^verbatim>\<open>publishFirst\<close> is in its \<open>k\<close>-th sleep, if any.
  \<open>except_name_dropped\<close> says whether the interpreter unbinds the name of
  \<^verbatim>\<open>except Exception as e\<close> when the clause ends (Python 3 does, Python 2 does not).
\<close>

record world =
  self_hpp :: "exn option"
  pathLength :: "nat \<Rightarrow> exn + real"
  getPath :: "nat \<Rightarrow> exn + nat"
  disc_setPath :: "nat \<Rightarrow> exn option"
  deleteServantFromObject :: "nat \<Rightarrow> exn option"
  disc_compute :: "real \<Rightarrow> exn option"
  disc_setJointNames :: "string list \<Rightarrow> exn option"
  disc_addOperationalFrame :: "string \<Rightarrow> mode \<Rightarrow> exn + bool"
  getCenterOfMassComputation :: "string \<Rightarrow> exn + nat"
  disc_addCenterOfMass :: "string \<Rightarrow> nat \<Rightarrow> mode \<Rightarrow> exn + bool"
  disc_resetTopics :: "exn option"
  time_now :: "nat \<Rightarrow> int"
  arrivals :: "nat \<Rightarrow> real list option"
  except_name_dropped :: bool

text \<open>
  The attributes of \<^verbatim>\<open>HppOutputQueue\<close> the handlers read and write, and the trace.
  \<open>self_times = None\<close> is \<^verbatim>\<open>self.times is None\<close>.
\<close>

record hq =
  self_dt :: real
  self_frequency :: real
  self_times :: "real list option"
  trace :: "event list"

definition emit :: "event \<Rightarrow> hq \<Rightarrow> hq" where
  "emit ev s = s\<lparr>trace := trace s @ [ev]\<rparr>"

text \<open>
  \<^verbatim>\<open>__init__\<close>: \<^verbatim>\<open>self.dt = rospy.get_param(...)\<close>, \<^verbatim>\<open>self.frequency = 1. / self.dt\<close>,
  \<^verbatim>\<open>self.times = None\<close>.
\<close>

definition init :: "real \<Rightarrow> exn + hq" where
  "init dt =
     (if dt = 0 then Inl ZeroDivisionError
      else Inr \<lparr>self_dt = dt, self_frequency = 1 / dt, self_times = None, trace = []\<rparr>)"

section \<open>Configuration handlers\<close>


text \<open>
  The body of the \<^verbatim>\<open>try\<close> of \<^verbatim>\<open>addCenterOfMass\<close> and \<^verbatim>\<open>addCenterOfMassVelocity\<close>
  (lines 132-135 and 147-150), which differ in the mode only: the value left in
  \<^verbatim>\<open>success\<close>, or the exception raised.
\<close>

definition addCenterOfMass_try :: "world \<Rightarrow> string \<Rightarrow> mode \<Rightarrow> hq \<Rightarrow> (exn + bool) \<times> hq" where
  "addCenterOfMass_try w v m s =
     (case self_hpp w of
        Some e \<Rightarrow> (Inl e, s)
      | None \<Rightarrow>
         (case getCenterOfMassComputation w v of
            Inl e \<Rightarrow> (Inl e, s)
          | Inr comcomp \<Rightarrow>
             (let s1 = emit (AddCenterOfMass v m) s in
              case disc_addCenterOfMass w v comcomp m of
                Inl e \<Rightarrow> (Inl e, s1)
              | Inr success \<Rightarrow>
                 (let s2 = emit (DeleteServant comcomp) s1 in
                  case deleteServantFromObject w comcomp of
                    Some e \<Rightarrow> (Inl e, s2)
                  | None \<Rightarrow> (Inr success, s2)))))"

text \<open>
  What follows a \<^verbatim>\<open>try\<close> whose handler is \<^verbatim>\<open>except Exception as e: success = False\<close>
  (lines 136-143, 151-158, 177-184): the log and the return read \<^verbatim>\<open>success\<close> and, when it
  is false, \<^verbatim>\<open>str(e)\<close>. The name \<^verbatim>\<open>e\<close> is bound only if an exception was caught and the
  interpreter kept the name; reading it unbound raises \<^verbatim>\<open>UnboundLocalError\<close>.
\<close>

definition after_try :: "world \<Rightarrow> string \<Rightarrow> string \<Rightarrow> (exn + bool) \<times> hq \<Rightarrow> (exn + bool) \<times> hq" where
  "after_try w info err r =
     (let s = snd r;
          success = (case fst r of Inl x \<Rightarrow> False | Inr b \<Rightarrow> b);
          e = (case fst r of Inl x \<Rightarrow> (if except_name_dropped w then None else Some x)
                           | Inr b \<Rightarrow> None)
      in if success then (Inr True, emit (LogInfo info) s)
         else (case e of
                 None \<Rightarrow> (Inl UnboundLocalError, s)
               | Some x \<Rightarrow> (Inr False, emit (LogErr (err @ str_exn x)) s)))"

definition addCenterOfMass :: "world \<Rightarrow> hq \<Rightarrow> string \<Rightarrow> (exn + bool) \<times> hq" where
  "addCenterOfMass w s v =
     after_try w (''Add COM position topic '' @ v) ''Could not add COM position: ''
       (addCenterOfMass_try w v Position s)"

definition addCenterOfMassVelocity :: "world \<Rightarrow> hq \<Rightarrow> string \<Rightarrow> (exn + bool) \<times> hq" where
  "addCenterOfMassVelocity w s v =
     after_try w (''Add COM velocity topic '' @ v) ''Could not add COM velocity: ''
       (addCenterOfMass_try w v Derivative s)"


text \<open>\<^verbatim>\<open>addOperationalFrameVelocity\<close> (lines 174-184).\<close>

definition addOperationalFrameVelocity :: "world \<Rightarrow> hq \<Rightarrow> string \<Rightarrow> (exn + bool) \<times> hq" where
  "addOperationalFrameVelocity w s v =
     after_try w (''Add operational frame velocity topic '' @ v)
       (''Could not add operational frame velocity '' @ v @ '': '')
       (disc_addOperationalFrame w v Derivative, emit (AddOperationalFrame v Derivative) s)"



section \<open>Reading a path: the time grid\<close>

text \<open>\<^verbatim>\<open>N = int(ceil(abs(L) * self.frequency))\<close> (line 199).\<close>

definition read_N :: "real \<Rightarrow> real \<Rightarrow> int" where
  "read_N freq L = \<lceil>\<bar>L\<bar> * freq\<rceil>"

text \<open>
  Lines 202-204:
  \<^verbatim>\<open>times = (-1 if L < 0 else 1) * np.array(range(N+1), dtype=float) / self.frequency\<close>,
  \<^verbatim>\<open>times[-1] = L\<close>, \<^verbatim>\<open>times += start\<close>. An empty \<^verbatim>\<open>range\<close> (when \<open>N + 1 \<le> 0\<close>)
  makes the assignment to index \<open>-1\<close> raise \<^verbatim>\<open>IndexError\<close>.
\<close>

definition read_times :: "real \<Rightarrow> real \<Rightarrow> real \<Rightarrow> exn + real list" where
  "read_times freq start L =
     (let N = read_N freq L;
          ts = map (\<lambda>i. (if L < 0 then - 1 else 1) * real i / freq) [0 ..< nat (N + 1)]
      in if ts = [] then Inl IndexError
         else Inr (map (\<lambda>t. t + start) (ts[length ts - 1 := L])))"

text \<open>
  \<^verbatim>\<open>_read\<close> (lines 197-211). The grid is a local until the last line,
  \<^verbatim>\<open>self.times = times\<close>.
\<close>

definition read_inner :: "world \<Rightarrow> hq \<Rightarrow> nat \<Rightarrow> real \<Rightarrow> real \<Rightarrow> (exn + unit) \<times> hq" where
  "read_inner w s pathId start L =
     (let s1 = emit (LogInfo ''Prepare sampling of path'') s in
      case read_times (self_frequency s) start L of
        Inl e \<Rightarrow> (Inl e, s1)
      | Inr ts \<Rightarrow>
         (case self_hpp w of
            Some e \<Rightarrow> (Inl e, s1)
          | None \<Rightarrow>
             (case getPath w pathId of
                Inl e \<Rightarrow> (Inl e, s1)
              | Inr path \<Rightarrow>
                 (let s2 = emit (SetPath path) s1 in
                  case disc_setPath w path of
                    Some e \<Rightarrow> (Inl e, s2)
                  | None \<Rightarrow>
                     (let s3 = emit (DeleteServant path) s2 in
                      case deleteServantFromObject w path of
                        Some e \<Rightarrow> (Inl e, s3)
                      | None \<Rightarrow> (Inr (), s3\<lparr>self_times := Some ts\<rparr>))))))"

text \<open>\<^verbatim>\<open>read\<close> (lines 213-217) and \<^verbatim>\<open>readSub\<close> (lines 219-220).\<close>

definition read :: "world \<Rightarrow> hq \<Rightarrow> nat \<Rightarrow> (exn + unit) \<times> hq" where
  "read w s pathId =
     (case self_hpp w of
        Some e \<Rightarrow> (Inl e, s)
      | None \<Rightarrow>
         (case pathLength w pathId of
            Inl e \<Rightarrow> (Inl e, s)
          | Inr L \<Rightarrow> read_inner w s pathId 0 L))"

definition readSub :: "world \<Rightarrow> hq \<Rightarrow> nat \<Rightarrow> real \<Rightarrow> real \<Rightarrow> (exn + unit) \<times> hq" where
  "readSub w s msg_id msg_start msg_length = read_inner w s msg_id msg_start msg_length"

section \<open>Publishing\<close>

text \<open>
  One \<^verbatim>\<open>rate.sleep()\<close> of the polling loop of \<^verbatim>\<open>publishFirst\<close>, the \<open>k\<close>-th of the
  call: the sleep is where another thread's \<^verbatim>\<open>read\<close> can assign \<^verbatim>\<open>self.times\<close>.
\<close>

definition poll_sleep :: "world \<Rightarrow> nat \<Rightarrow> hq \<Rightarrow> hq" where
  "poll_sleep w k s =
     (emit (RateSleep 1000) s)
       \<lparr>self_times := (case arrivals w k of None \<Rightarrow> self_times s | Some g \<Rightarrow> Some g)\<rparr>"

text \<open>
  \<^verbatim>\<open>while self.times is None and count > 0: rate.sleep(); count -= 1\<close> (lines 227-229);
  the first argument is \<^verbatim>\<open>count\<close>, the second the number of sleeps done.
\<close>

fun publishFirst_wait :: "world \<Rightarrow> nat \<Rightarrow> nat \<Rightarrow> hq \<Rightarrow> hq" where
  "publishFirst_wait w 0 k s = s"
| "publishFirst_wait w (Suc count) k s =
     (if self_times s = None then publishFirst_wait w count (Suc k) (poll_sleep w k s) else s)"

text \<open>\<^verbatim>\<open>publishFirst\<close> (lines 222-235); the result is the pair the handler returns.\<close>

definition publishFirst :: "world \<Rightarrow> hq \<Rightarrow> (exn + bool \<times> string) \<times> hq" where
  "publishFirst w s =
     (let s1 = (if self_times s = None
                then emit (LogWarn ''First message not ready yet. Keep trying during one second.'') s
                else s);
          s2 = publishFirst_wait w 1000 0 s1
      in case self_times s2 of
           None \<Rightarrow>
             (Inr (False, ''First message not ready yet. Did you call read_path ?''),
              emit (LogErr ''Could not print first message'') s2)
         | Some ts \<Rightarrow>
             (case ts of
                [] \<Rightarrow> (Inl IndexError, s2)
              | t # rest \<Rightarrow>
                 (let s3 = emit (Compute t) s2 in
                  case disc_compute w t of
                    Some e \<Rightarrow> (Inl e, s3)
                  | None \<Rightarrow> (Inr (True, []), s3))))"

text \<open>\<^verbatim>\<open>rospy.Duration.to_sec()\<close>: nanoseconds to seconds.\<close>

definition to_sec :: "int \<Rightarrow> real" where
  "to_sec d = real_of_int d / 1000000000"

text \<open>
  The locals of the loop of \<^verbatim>\<open>publish\<close>: \<^verbatim>\<open>n\<close>, \<^verbatim>\<open>nstar\<close>, \<^verbatim>\<open>now\<close>,
  \<^verbatim>\<open>computation_time\<close>, with the number of clock readings made so far and the object.
\<close>

record loop =
  l_n :: nat
  l_nstar :: real
  l_now :: int
  l_computation_time :: int
  l_reads :: nat
  l_self :: hq

text \<open>
  Lines 257-258: \<^verbatim>\<open>t = (now - start).to_sec()\<close>,
  \<^verbatim>\<open>nstar = min(advance + t * self.frequency, len(self.times))\<close>.
\<close>

definition watermark :: "real list \<Rightarrow> real \<Rightarrow> real \<Rightarrow> int \<Rightarrow> int \<Rightarrow> real" where
  "watermark ts advance freq start now =
     min (advance + to_sec (now - start) * freq) (real (length ts))"

text \<open>
  One pass through the body of \<^verbatim>\<open>while n < len(self.times)\<close> (lines 248-258), entered with
  \<open>l_n l < length ts\<close>. The first component is the exception \<^verbatim>\<open>compute\<close> raised, if any.
\<close>

definition publish_body ::
  "world \<Rightarrow> real list \<Rightarrow> real \<Rightarrow> real \<Rightarrow> int \<Rightarrow> loop \<Rightarrow> exn option \<times> loop" where
  "publish_body w ts advance freq start l =
     (if real (l_n l) < l_nstar l then
        (let prev = time_now w (l_reads l);
             t = ts ! l_n l;
             s1 = emit (Compute t) (emit (TimeNow prev) (l_self l))
         in case disc_compute w t of
              Some e \<Rightarrow> (Some e, l\<lparr>l_reads := l_reads l + 1, l_self := s1\<rparr>)
            | None \<Rightarrow>
               (let now = time_now w (l_reads l + 1) in
                (None,
                 l\<lparr>l_n := l_n l + 1,
                   l_nstar := watermark ts advance freq start now,
                   l_now := now,
                   l_computation_time := l_computation_time l + (now - prev),
                   l_reads := l_reads l + 2,
                   l_self := emit (TimeNow now) s1\<rparr>)))
      else
        (let now = time_now w (l_reads l) in
         (None,
          l\<lparr>l_nstar := watermark ts advance freq start now,
            l_now := now,
            l_reads := l_reads l + 1,
            l_self := emit (TimeNow now) (emit (RateSleep 100) (l_self l))\<rparr>)))"

text \<open>
  The \<^verbatim>\<open>while\<close> loop with fuel: \<open>None\<close> when the fuel runs out before \<open>n\<close> reaches
  \<open>len(self.times)\<close>.
\<close>

fun publish_loop ::
  "world \<Rightarrow> real list \<Rightarrow> real \<Rightarrow> real \<Rightarrow> int \<Rightarrow> nat \<Rightarrow> loop \<Rightarrow> (exn option \<times> loop) option" where
  "publish_loop w ts advance freq start 0 l =
     (if l_n l < length ts then None else Some (None, l))"
| "publish_loop w ts advance freq start (Suc fuel) l =
     (if l_n l < length ts then
        (case publish_body w ts advance freq start l of
           (Some e, l') \<Rightarrow> Some (Some e, l')
         | (None, l') \<Rightarrow> publish_loop w ts advance freq start fuel l')
      else Some (None, l))"

text \<open>
  The state after \<open>k\<close> passes of the loop, or where it stopped before: at the exit or at
  an exception.
\<close>

fun publish_iter ::
  "world \<Rightarrow> real list \<Rightarrow> real \<Rightarrow> real \<Rightarrow> int \<Rightarrow> nat \<Rightarrow> loop \<Rightarrow> exn option \<times> loop" where
  "publish_iter w ts advance freq start 0 l = (None, l)"
| "publish_iter w ts advance freq start (Suc k) l =
     (case publish_iter w ts advance freq start k l of
        (Some e, l') \<Rightarrow> (Some e, l')
      | (None, l') \<Rightarrow>
          (if l_n l' < length ts then publish_body w ts advance freq start l' else (None, l')))"

text \<open>Lines 238-246, up to the loop: the locals at the first test of the loop.\<close>

definition publish_advance :: "hq \<Rightarrow> real" where
  "publish_advance s = 0.150 * self_frequency s"

definition publish_start :: "world \<Rightarrow> hq \<Rightarrow> real list \<Rightarrow> loop" where
  "publish_start w s ts =
     (let s0 = emit (LogInfo ''Start publishing path'') s;
          start = time_now w 0;
          now = time_now w 1
      in \<lparr>l_n = 0,
          l_nstar = min (publish_advance s) (real (length ts)),
          l_now = now,
          l_computation_time = 0,
          l_reads = 2,
          l_self = emit (TimeNow now) (emit (TimeNow start) s0)\<rparr>)"

text \<open>Lines 260-265, after the loop.\<close>

definition publish_finish :: "loop \<Rightarrow> (exn + unit) \<times> hq" where
  "publish_finish l =
     (let s = l_self l in
      if l_n l = 0 then (Inl ZeroDivisionError, s)
      else
        (let avg = to_sec (l_computation_time l) / real (l_n l);
             s1 = (if self_dt s \<le> avg
                   then emit (LogWarn ''The average sampling time of the reference trajectory is higher than the execution time'') s
                   else s);
             s2 = s1\<lparr>self_times := None\<rparr>;
             s3 = emit PublishDone s2
         in (Inr (), emit (LogInfo ''Finish publishing queue'') s3)))"

text \<open>
  \<^verbatim>\<open>publish\<close> (lines 237-265). \<^verbatim>\<open>len(self.times)\<close> on \<^verbatim>\<open>None\<close> raises \<^verbatim>\<open>TypeError\<close>.
  The grid is read once: the model is of a \<^verbatim>\<open>publish\<close> during which no other thread
  assigns \<^verbatim>\<open>self.times\<close>. The result is \<open>None\<close> when the fuel does not suffice.
\<close>

definition publish :: "world \<Rightarrow> nat \<Rightarrow> hq \<Rightarrow> ((exn + unit) \<times> hq) option" where
  "publish w fuel s =
     (case self_times s of
        None \<Rightarrow> Some (Inl TypeError, s)
      | Some ts \<Rightarrow>
         (case publish_loop w ts (publish_advance s) (self_frequency s) (time_now w 0) fuel
                 (publish_start w s ts) of
            None \<Rightarrow> None
          | Some (Some e, l) \<Rightarrow> Some (Inl e, l_self l)
          | Some (None, l) \<Rightarrow> Some (publish_finish l)))"

text \<open>\<^verbatim>\<open>getQueueSize\<close> (lines 269-270): \<^verbatim>\<open>return len(self.times)\<close>.\<close>

definition getQueueSize :: "hq \<Rightarrow> exn + nat" where
  "getQueueSize s = (case self_times s of None \<Rightarrow> Inl TypeError | Some ts \<Rightarrow> Inr (length ts))"

section \<open>Reading the trace\<close>

text \<open>The calls of \<^verbatim>\<open>discretization.compute\<close> in a trace, in order.\<close>

fun computes :: "event list \<Rightarrow> real list" where
  "computes [] = []"
| "computes (Compute t # es) = t # computes es"
| "computes (e # es) = computes es"

text \<open>
  The time between the clock readings around each \<^verbatim>\<open>compute\<close> call of a trace, summed,
  read from the newest event back: a reading, the call before it, the reading before that.
\<close>

fun time_in_compute_rev :: "event list \<Rightarrow> int" where
  "time_in_compute_rev [] = 0"
| "time_in_compute_rev (e # es) =
     (case (e, es) of
        (TimeNow b, Compute t # TimeNow a # es') \<Rightarrow> (b - a) + time_in_compute_rev es'
      | _ \<Rightarrow> time_in_compute_rev es)"

definition time_in_compute :: "event list \<Rightarrow> int" where
  "time_in_compute es = time_in_compute_rev (rev es)"

text \<open>The warnings logged in a trace, in order.\<close>

fun warnings :: "event list \<Rightarrow> string list" where
  "warnings [] = []"
| "warnings (LogWarn m # es) = m # warnings es"
| "warnings (e # es) = warnings es"

section \<open>Concrete inputs\<close>

text \<open>
  A world in which every collaborator call succeeds, path 3 has length \<open>3/10\<close>, the clock
  advances by a tenth of a second per reading and no grid arrives during a wait; and a
  freshly initialised object with \<open>dt = 1/10\<close>.
\<close>

definition calm_world :: world where
  "calm_world =
     \<lparr>self_hpp = None, pathLength = (\<lambda>p. Inr (3 / 10)), getPath = (\<lambda>p. Inr p),
      disc_setPath = (\<lambda>p. None), deleteServantFromObject = (\<lambda>p. None),
      disc_compute = (\<lambda>t. None), disc_setJointNames = (\<lambda>ns. None),
      disc_addOperationalFrame = (\<lambda>v m. Inr True),
      getCenterOfMassComputation = (\<lambda>v. Inr 0),
      disc_addCenterOfMass = (\<lambda>v c m. Inr True), disc_resetTopics = None,
      time_now = (\<lambda>k. int k * 100000000), arrivals = (\<lambda>k. None),
      except_name_dropped = False\<rparr>"

definition fresh :: hq where
  "fresh = \<lparr>self_dt = 1 / 10, self_frequency = 10, self_times = None, trace = []\<rparr>"

text \<open>Worlds in which one collaborator call raises, and an object that holds a grid.\<close>

definition setPath_fails_world :: world where
  "setPath_fails_world =
     calm_world\<lparr>disc_setPath := (\<lambda>p. Some (CollaboratorError ''setPath''))\<rparr>"




text \<open>A world in which a concurrent \<^verbatim>\<open>read\<close> installs a grid during the sixth sleep.\<close>

definition late_world :: world where
  "late_world = calm_world\<lparr>arrivals := (\<lambda>k. if k = 5 then Some [7, 8] else None)\<rparr>"


definition loaded :: hq where
  "loaded = fresh\<lparr>self_times := Some [0, 1 / 10, 1 / 5, 3 / 10]\<rparr>"


section \<open>The time grid\<close>











section \<open>Reading a path\<close>

lemma read_inner_failure:
  "fst (read_inner w s pathId start L) = Inl e \<Longrightarrow>
   self_times (snd (read_inner w s pathId start L)) = self_times s"
  by (auto simp: read_inner_def emit_def Let_def split: sum.splits option.splits)

lemma read_times_nonempty: "read_times freq start L = Inr ts \<Longrightarrow> ts \<noteq> []"
  by (auto simp: read_times_def Let_def split: if_splits)

text \<open>A read that returns has installed the grid it built, and that grid is not empty.\<close>

lemma read_inner_success:
  assumes "fst (read_inner w s pathId start L) = Inr u"
  shows "\<exists>ts. read_times (self_frequency s) start L = Inr ts
              \<and> self_times (snd (read_inner w s pathId start L)) = Some ts
              \<and> ts \<noteq> []"
proof -
  from assms obtain ts where ts: "read_times (self_frequency s) start L = Inr ts"
    by (auto simp: read_inner_def Let_def split: sum.splits)
  then have "self_times (snd (read_inner w s pathId start L)) = Some ts"
    using assms
    by (auto simp: read_inner_def emit_def Let_def split: sum.splits option.splits)
  then show ?thesis using ts read_times_nonempty[OF ts] by blast
qed

text \<open>
  C9. If a collaborator call made during a read command (\<^verbatim>\<open>pathLength\<close>, \<^verbatim>\<open>getPath\<close>,
  \<^verbatim>\<open>setPath\<close> or the release of the handle) raises, \<^verbatim>\<open>self.times\<close> is what it was before
  the command: the grid is assigned last, so a failed \<^verbatim>\<open>read\<close> or \<^verbatim>\<open>readSub\<close> leaves the
  feed's grid untouched.
\<close>

theorem failed_read_keeps_grid:
  "(fst (read w s pathId) = Inl e \<longrightarrow> self_times (snd (read w s pathId)) = self_times s)
   \<and> (fst (readSub w s msg_id msg_start msg_length) = Inl e \<longrightarrow>
        self_times (snd (readSub w s msg_id msg_start msg_length)) = self_times s)"
  using read_inner_failure[of w s]
  by (auto simp: read_def readSub_def split: sum.splits option.splits)

theorem failed_read_keeps_grid_witness:
  "fst (read setPath_fails_world loaded 3) = Inl (CollaboratorError ''setPath'')
   \<and> self_times (snd (read setPath_fails_world loaded 3)) = Some [0, 1 / 10, 1 / 5, 3 / 10]
   \<and> trace (snd (read setPath_fails_world loaded 3))
       = [LogInfo ''Prepare sampling of path'', SetPath 3]"
proof -
  have e: "fst (read setPath_fails_world loaded 3) = Inl (CollaboratorError ''setPath'')"
    by code_simp
  have t: "trace (snd (read setPath_fails_world loaded 3))
             = [LogInfo ''Prepare sampling of path'', SetPath 3]"
    by code_simp
  have l: "self_times loaded = Some [0, 1 / 10, 1 / 5, 3 / 10]"
    by (simp add: loaded_def)
  show ?thesis
    using failed_read_keeps_grid[of setPath_fails_world loaded 3 "CollaboratorError ''setPath''"]
          e t l
    by simp
qed

section \<open>The queue size\<close>

lemma getQueueSize_with_grid: "self_times s = Some ts \<Longrightarrow> getQueueSize s = Inr (length ts)"
  by (simp add: getQueueSize_def)

lemma getQueueSize_no_grid: "self_times s = None \<Longrightarrow> getQueueSize s = Inl TypeError"
  by (simp add: getQueueSize_def)

text \<open>
  C6. On a freshly initialised object, where no grid was ever set, \<^verbatim>\<open>getQueueSize\<close> does
  not answer with a not-ready result: \<^verbatim>\<open>len(None)\<close> raises \<^verbatim>\<open>TypeError\<close>, which the
  handler does not catch.
\<close>

theorem getQueueSize_without_grid:
  "init (1 / 10) = Inr fresh \<and> getQueueSize fresh = Inl TypeError"
  by (simp add: init_def fresh_def getQueueSize_def)

section \<open>Exceptions of collaborators\<close>




text \<open>
  The three handlers whose \<^verbatim>\<open>except\<close> clause only sets \<^verbatim>\<open>success = False\<close> read
  \<^verbatim>\<open>str(e)\<close> after the clause. They return \<open>False\<close> when the interpreter keeps the name
  bound; they raise \<^verbatim>\<open>UnboundLocalError\<close> when it drops the name, and always when the
  collaborator reports failure without raising.
\<close>

lemma after_try_name_kept:
  "\<not> except_name_dropped w \<Longrightarrow> fst (after_try w info err (Inl e, s)) = Inr False"
  by (simp add: after_try_def)

lemma after_try_name_dropped:
  "except_name_dropped w \<Longrightarrow> fst (after_try w info err (Inl e, s)) = Inl UnboundLocalError"
  by (simp add: after_try_def)

lemma after_try_silent_failure:
  "fst (after_try w info err (Inr False, s)) = Inl UnboundLocalError"
  by (simp add: after_try_def)

lemma after_try_success:
  "fst (after_try w info err (Inr True, s)) = Inr True"
  by (simp add: after_try_def)

section \<open>The first sample\<close>

lemma publishFirst_wait_quiet:
  "self_times s = None \<Longrightarrow> (\<forall>j. k \<le> j \<and> j < k + count \<longrightarrow> arrivals w j = None) \<Longrightarrow>
   publishFirst_wait w count k s = s\<lparr>trace := trace s @ replicate count (RateSleep 1000)\<rparr>"
proof (induction count arbitrary: k s)
  case 0
  then show ?case by simp
next
  case (Suc count)
  have a: "arrivals w k = None" using Suc.prems(2) by simp
  have n: "self_times (poll_sleep w k s) = None"
    using Suc.prems(1) a by (simp add: poll_sleep_def emit_def)
  have q: "\<forall>j. Suc k \<le> j \<and> j < Suc k + count \<longrightarrow> arrivals w j = None"
    using Suc.prems(2) by simp
  show ?case
    using Suc.IH[OF n q] Suc.prems(1)
    by (simp add: poll_sleep_def emit_def a replicate_append_same)
qed

lemma publishFirst_wait_arrival:
  "self_times s = None \<Longrightarrow> m < count \<Longrightarrow>
   (\<forall>j. k \<le> j \<and> j < k + m \<longrightarrow> arrivals w j = None) \<Longrightarrow>
   arrivals w (k + m) = Some g \<Longrightarrow>
   publishFirst_wait w count k s =
     s\<lparr>trace := trace s @ replicate (Suc m) (RateSleep 1000), self_times := Some g\<rparr>"
proof (induction count arbitrary: k s m)
  case 0
  then show ?case by simp
next
  case (Suc count)
  show ?case
  proof (cases m)
    case 0
    then have a: "arrivals w k = Some g" using Suc.prems(4) by simp
    have "self_times (poll_sleep w k s) = Some g" by (simp add: poll_sleep_def emit_def a)
    then have "publishFirst_wait w count (Suc k) (poll_sleep w k s) = poll_sleep w k s"
      by (cases count) simp_all
    then show ?thesis using Suc.prems(1) 0 by (simp add: poll_sleep_def emit_def a)
  next
    case (Suc m')
    have a: "arrivals w k = None" using Suc.prems(3) Suc by simp
    have n: "self_times (poll_sleep w k s) = None"
      using Suc.prems(1) a by (simp add: poll_sleep_def emit_def)
    have q: "\<forall>j. Suc k \<le> j \<and> j < Suc k + m' \<longrightarrow> arrivals w j = None"
      using Suc.prems(3) Suc by simp
    have g: "arrivals w (Suc k + m') = Some g" using Suc.prems(4) Suc by simp
    have lt: "m' < count" using Suc.prems(2) Suc by simp
    show ?thesis
      using Suc.IH[OF n lt q g] Suc.prems(1) Suc
      by (simp add: poll_sleep_def emit_def a replicate_append_same)
  qed
qed

text \<open>
  C5. Called with no grid, and none arriving, \<^verbatim>\<open>publishFirst\<close> sleeps exactly 1000 times
  at 1000 Hz, computes nothing and returns \<open>False\<close> with the not-ready message. Called with
  a grid, it sleeps not at all, computes the first sample time only and returns \<open>True\<close>,
  provided \<^verbatim>\<open>compute\<close> does not raise. If a grid arrives during sleep \<open>m < 1000\<close>, it stops
  polling after that sleep, computes the first time of that grid and returns \<open>True\<close>.
\<close>

theorem publishFirst_bounded_wait:
  "(self_times s = None \<and> (\<forall>j<1000. arrivals w j = None) \<longrightarrow>
      publishFirst w s =
        (Inr (False, ''First message not ready yet. Did you call read_path ?''),
         s\<lparr>trace := trace s
              @ [LogWarn ''First message not ready yet. Keep trying during one second.'']
              @ replicate 1000 (RateSleep 1000)
              @ [LogErr ''Could not print first message'']\<rparr>))
   \<and> (self_times s = Some (t # ts) \<and> disc_compute w t = None \<longrightarrow>
      publishFirst w s = (Inr (True, []), s\<lparr>trace := trace s @ [Compute t]\<rparr>))
   \<and> (self_times s = None \<and> m < 1000 \<and> (\<forall>j<m. arrivals w j = None)
        \<and> arrivals w m = Some (t # ts) \<and> disc_compute w t = None \<longrightarrow>
      publishFirst w s =
        (Inr (True, []),
         s\<lparr>trace := trace s
              @ [LogWarn ''First message not ready yet. Keep trying during one second.'']
              @ replicate (Suc m) (RateSleep 1000)
              @ [Compute t],
            self_times := Some (t # ts)\<rparr>))"
proof (intro conjI impI)
  assume a: "self_times s = None \<and> (\<forall>j<1000. arrivals w j = None)"
  let ?s1 = "emit (LogWarn ''First message not ready yet. Keep trying during one second.'') s"
  have n: "self_times ?s1 = None" using a by (simp add: emit_def)
  have q: "\<forall>j. 0 \<le> j \<and> j < 0 + 1000 \<longrightarrow> arrivals w j = None" using a by simp
  show "publishFirst w s =
        (Inr (False, ''First message not ready yet. Did you call read_path ?''),
         s\<lparr>trace := trace s
              @ [LogWarn ''First message not ready yet. Keep trying during one second.'']
              @ replicate 1000 (RateSleep 1000)
              @ [LogErr ''Could not print first message'']\<rparr>)"
    unfolding publishFirst_def Let_def
    using a publishFirst_wait_quiet[OF n q] by (simp add: emit_def)
next
  assume a: "self_times s = Some (t # ts) \<and> disc_compute w t = None"
  have "publishFirst_wait w 1000 0 s = s"
    using a by (simp add: numeral_eq_Suc)
  then show "publishFirst w s = (Inr (True, []), s\<lparr>trace := trace s @ [Compute t]\<rparr>)"
    unfolding publishFirst_def Let_def using a by (simp add: emit_def)
next
  assume a: "self_times s = None \<and> m < 1000 \<and> (\<forall>j<m. arrivals w j = None)
        \<and> arrivals w m = Some (t # ts) \<and> disc_compute w t = None"
  let ?s1 = "emit (LogWarn ''First message not ready yet. Keep trying during one second.'') s"
  have n: "self_times ?s1 = None" using a by (simp add: emit_def)
  have q: "\<forall>j. 0 \<le> j \<and> j < 0 + m \<longrightarrow> arrivals w j = None" using a by simp
  have lt: "m < 1000" using a by simp
  have g: "arrivals w (0 + m) = Some (t # ts)" using a by simp
  show "publishFirst w s =
        (Inr (True, []),
         s\<lparr>trace := trace s
              @ [LogWarn ''First message not ready yet. Keep trying during one second.'']
              @ replicate (Suc m) (RateSleep 1000)
              @ [Compute t],
            self_times := Some (t # ts)\<rparr>)"
    unfolding publishFirst_def Let_def
    using a publishFirst_wait_arrival[OF n lt q g] by (simp add: emit_def)
qed

theorem publishFirst_bounded_wait_witness:
  "publishFirst calm_world fresh =
     (Inr (False, ''First message not ready yet. Did you call read_path ?''),
      fresh\<lparr>trace := [LogWarn ''First message not ready yet. Keep trying during one second.'']
              @ replicate 1000 (RateSleep 1000)
              @ [LogErr ''Could not print first message'']\<rparr>)
   \<and> publishFirst calm_world loaded = (Inr (True, []), loaded\<lparr>trace := [Compute 0]\<rparr>)
   \<and> publishFirst late_world fresh =
     (Inr (True, []),
      fresh\<lparr>trace := [LogWarn ''First message not ready yet. Keep trying during one second.'']
              @ replicate (Suc 5) (RateSleep 1000) @ [Compute 7],
            self_times := Some [7, 8]\<rparr>)"
proof -
  have a: "self_times fresh = None" "trace fresh = []"
    "self_times loaded = Some [0, 1 / 10, 1 / 5, 3 / 10]" "trace loaded = []"
    by (simp_all add: fresh_def loaded_def)
  have b: "\<forall>j<1000. arrivals calm_world j = None" "disc_compute calm_world 0 = None"
    by (simp_all add: calm_world_def)
  have c: "(5::nat) < 1000" "\<forall>j<5. arrivals late_world j = None"
    "arrivals late_world 5 = Some [7, 8]" "disc_compute late_world 7 = None"
    by (simp_all add: late_world_def calm_world_def)
  show ?thesis
    using publishFirst_bounded_wait[where s = fresh and w = calm_world]
          publishFirst_bounded_wait[where s = loaded and w = calm_world and t = 0
                                      and ts = "[1 / 10, 1 / 5, 3 / 10]"]
          publishFirst_bounded_wait[where s = fresh and w = late_world and m = 5 and t = 7
                                      and ts = "[8]"]
          a b c
    by simp
qed

section \<open>The loop of \<^verbatim>\<open>publish\<close>\<close>

lemma warnings_append: "warnings (xs @ ys) = warnings xs @ warnings ys"
  by (induction xs rule: warnings.induct) simp_all

lemma computes_append: "computes (xs @ ys) = computes xs @ computes ys"
  by (induction xs rule: computes.induct) simp_all

lemma time_in_compute_call:
  "time_in_compute (es @ [TimeNow a, Compute t, TimeNow b]) = (b - a) + time_in_compute es"
  by (simp add: time_in_compute_def)

lemma time_in_compute_sleep:
  "time_in_compute (es @ [RateSleep r, TimeNow b]) = time_in_compute es"
  by (simp add: time_in_compute_def)

lemma time_in_compute_start:
  "time_in_compute (es @ [LogInfo m, TimeNow a, TimeNow b]) = time_in_compute es"
  by (simp add: time_in_compute_def)

lemma time_in_compute_finish:
  "time_in_compute (es @ [LogWarn m, PublishDone, LogInfo m']) = time_in_compute es"
  "time_in_compute (es @ [PublishDone, LogInfo m']) = time_in_compute es"
  "time_in_compute (es @ [LogWarn m]) = time_in_compute es"
  by (simp_all add: time_in_compute_def)

lemma publish_body_self:
  "publish_body w ts adv freq start l = (x, l') \<Longrightarrow>
   self_times (l_self l') = self_times (l_self l)
   \<and> self_dt (l_self l') = self_dt (l_self l)
   \<and> self_frequency (l_self l') = self_frequency (l_self l)"
  by (auto simp: publish_body_def Let_def emit_def split: if_splits option.splits)

lemma publish_body_computes:
  assumes "l_n l < length ts" and "publish_body w ts adv freq start l = (None, l')"
    and "computes (trace (l_self l)) = c0 @ take (l_n l) ts"
  shows "computes (trace (l_self l')) = c0 @ take (l_n l') ts"
  using assms
  by (auto simp: publish_body_def Let_def emit_def computes_append take_Suc_conv_app_nth
           split: if_splits option.splits)

lemma publish_body_time:
  assumes "publish_body w ts adv freq start l = (None, l')"
  shows "l_computation_time l' - time_in_compute (trace (l_self l'))
         = l_computation_time l - time_in_compute (trace (l_self l))"
  using assms time_in_compute_call[of "trace (l_self l)"] time_in_compute_sleep[of "trace (l_self l)"]
  by (auto simp: publish_body_def Let_def emit_def split: if_splits option.splits)

text \<open>An invariant of the body that holds at the entry of the loop holds at its exit.\<close>

lemma publish_loop_invariant:
  assumes step: "\<And>l l'. P l \<Longrightarrow> l_n l < length ts \<Longrightarrow>
                   publish_body w ts adv freq start l = (None, l') \<Longrightarrow> P l'"
  shows "publish_loop w ts adv freq start fuel l = Some (None, l') \<Longrightarrow> P l \<Longrightarrow>
         P l' \<and> \<not> l_n l' < length ts"
proof (induction fuel arbitrary: l)
  case 0
  then show ?case by (auto split: if_splits)
next
  case (Suc fuel)
  show ?case
  proof (cases "l_n l < length ts")
    case False
    then show ?thesis using Suc.prems by simp
  next
    case True
    obtain x l1 where b: "publish_body w ts adv freq start l = (x, l1)"
      by (cases "publish_body w ts adv freq start l")
    with True Suc.prems(1) have x: "x = None"
      and r: "publish_loop w ts adv freq start fuel l1 = Some (None, l')"
      by (auto split: option.splits)
    have "P l1" using step[OF Suc.prems(2) True] b x by simp
    then show ?thesis using Suc.IH[OF r] by simp
  qed
qed

lemma publish_body_n:
  "l_n l < length ts \<Longrightarrow> publish_body w ts adv freq start l = (None, l') \<Longrightarrow> l_n l' \<le> length ts"
  by (auto simp: publish_body_def Let_def split: if_splits option.splits)

text \<open>
  The loop returns when no \<^verbatim>\<open>compute\<close> raises and the clock, from reading \<open>K\<close> on, puts
  the watermark at \<open>M\<close>: each pass either computes a sample or uses up a reading below
  \<open>K + 2\<close>.
\<close>

lemma publish_loop_terminates:
  assumes reach: "\<forall>j\<ge>K. real (length ts) \<le> adv + to_sec (time_now w j - start) * freq"
      and ok: "\<forall>t\<in>set ts. disc_compute w t = None"
  shows "(K + 2 \<le> l_reads l \<longrightarrow> l_nstar l = real (length ts)) \<Longrightarrow>
         (length ts - l_n l) + (K + 2 - l_reads l) \<le> fuel \<Longrightarrow>
         \<exists>l'. publish_loop w ts adv freq start fuel l = Some (None, l')"
proof (induction fuel arbitrary: l)
  case 0
  then show ?case by simp
next
  case (Suc fuel)
  show ?case
  proof (cases "l_n l < length ts")
    case False
    then show ?thesis by simp
  next
    case True
    then have c: "disc_compute w (ts ! l_n l) = None" using ok by simp
    have wm: "\<And>j. K \<le> j \<Longrightarrow> watermark ts adv freq start (time_now w j) = real (length ts)"
    proof -
      fix j assume "K \<le> j"
      then have "real (length ts) \<le> adv + to_sec (time_now w j - start) * freq"
        using reach by blast
      then show "watermark ts adv freq start (time_now w j) = real (length ts)"
        by (simp add: watermark_def min_def)
    qed
    show ?thesis
    proof (cases "real (l_n l) < l_nstar l")
      case compute: True
      let ?l1 = "l\<lparr>l_n := l_n l + 1,
                   l_nstar := watermark ts adv freq start (time_now w (l_reads l + 1)),
                   l_now := time_now w (l_reads l + 1),
                   l_computation_time := l_computation_time l + (time_now w (l_reads l + 1) - time_now w (l_reads l)),
                   l_reads := l_reads l + 2,
                   l_self := emit (TimeNow (time_now w (l_reads l + 1))) (emit (Compute (ts ! l_n l)) (emit (TimeNow (time_now w (l_reads l))) (l_self l)))\<rparr>"
      have b: "publish_body w ts adv freq start l = (None, ?l1)"
        using compute c by (simp add: publish_body_def Let_def)
      have i: "K + 2 \<le> l_reads ?l1 \<longrightarrow> l_nstar ?l1 = real (length ts)"
        using wm[of "l_reads l + 1"] by simp
      have m: "(length ts - l_n ?l1) + (K + 2 - l_reads ?l1) \<le> fuel"
        using Suc.prems(2) True by simp
      from Suc.IH[OF i m] show ?thesis using True b by simp
    next
      case sleep: False
      let ?l1 = "l\<lparr>l_nstar := watermark ts adv freq start (time_now w (l_reads l)),
            l_now := time_now w (l_reads l),
            l_reads := l_reads l + 1,
            l_self := emit (TimeNow (time_now w (l_reads l))) (emit (RateSleep 100) (l_self l))\<rparr>"
      have b: "publish_body w ts adv freq start l = (None, ?l1)"
        using sleep by (simp add: publish_body_def Let_def)
      have lt: "l_reads l < K + 2" using sleep True Suc.prems(1) by fastforce
      have i: "K + 2 \<le> l_reads ?l1 \<longrightarrow> l_nstar ?l1 = real (length ts)"
        using wm[of "l_reads l"] by simp
      have m: "(length ts - l_n ?l1) + (K + 2 - l_reads ?l1) \<le> fuel"
        using Suc.prems(2) lt by simp
      from Suc.IH[OF i m] show ?thesis using True b by simp
    qed
  qed
qed


lemma publish_body_warnings:
  "publish_body w ts adv freq start l = (x, l') \<Longrightarrow>
   warnings (trace (l_self l')) = warnings (trace (l_self l))"
  by (auto simp: publish_body_def Let_def emit_def warnings_append split: if_splits option.splits)

lemma publish_start_facts:
  "l_n (publish_start w s ts) = 0"
  "l_reads (publish_start w s ts) = 2"
  "l_nstar (publish_start w s ts) = min (publish_advance s) (real (length ts))"
  "l_computation_time (publish_start w s ts) = 0"
  "self_times (l_self (publish_start w s ts)) = self_times s"
  "self_dt (l_self (publish_start w s ts)) = self_dt s"
  "self_frequency (l_self (publish_start w s ts)) = self_frequency s"
  "computes (trace (l_self (publish_start w s ts))) = computes (trace s)"
  "warnings (trace (l_self (publish_start w s ts))) = warnings (trace s)"
  "time_in_compute (trace (l_self (publish_start w s ts))) = time_in_compute (trace s)"
  using time_in_compute_start[of "trace s"]
  by (simp_all add: publish_start_def Let_def emit_def computes_append warnings_append)

lemma publish_loop_exit:
  assumes r: "publish_loop w ts (publish_advance s) (self_frequency s) (time_now w 0) fuel
                (publish_start w s ts) = Some (None, l')"
  shows "l_n l' = length ts
       \<and> computes (trace (l_self l')) = computes (trace s) @ ts
       \<and> warnings (trace (l_self l')) = warnings (trace s)
       \<and> self_times (l_self l') = self_times s
       \<and> self_dt (l_self l') = self_dt s
       \<and> l_computation_time l' = time_in_compute (trace (l_self l')) - time_in_compute (trace s)"
proof -
  let ?P = "\<lambda>l. l_n l \<le> length ts
       \<and> computes (trace (l_self l)) = computes (trace s) @ take (l_n l) ts
       \<and> warnings (trace (l_self l)) = warnings (trace s)
       \<and> self_times (l_self l) = self_times s
       \<and> self_dt (l_self l) = self_dt s
       \<and> l_computation_time l - time_in_compute (trace (l_self l)) = - time_in_compute (trace s)"
  have step: "\<And>l l'. ?P l \<Longrightarrow> l_n l < length ts \<Longrightarrow>
      publish_body w ts (publish_advance s) (self_frequency s) (time_now w 0) l = (None, l')
      \<Longrightarrow> ?P l'"
    using publish_body_n publish_body_computes publish_body_warnings publish_body_self
          publish_body_time
    by metis
  have init: "?P (publish_start w s ts)"
    by (simp add: publish_start_facts)
  have "?P l' \<and> \<not> l_n l' < length ts"
    by (rule publish_loop_invariant[where P = ?P, OF step r init])
  then show ?thesis by simp
qed


lemma publish_finish_facts:
  assumes "l_n l \<noteq> 0"
  shows "fst (publish_finish l) = Inr ()"
    and "self_times (snd (publish_finish l)) = None"
    and "self_dt (snd (publish_finish l)) = self_dt (l_self l)"
    and "computes (trace (snd (publish_finish l))) = computes (trace (l_self l))"
    and "warnings (trace (snd (publish_finish l))) =
           warnings (trace (l_self l))
           @ (if self_dt (l_self l) \<le> to_sec (l_computation_time l) / real (l_n l)
              then [''The average sampling time of the reference trajectory is higher than the execution time'']
              else [])"
    and "time_in_compute (trace (snd (publish_finish l))) = time_in_compute (trace (l_self l))"
    and "\<exists>pre. trace (snd (publish_finish l)) = pre @ [PublishDone, LogInfo ''Finish publishing queue'']"
  using assms
  by (simp_all add: publish_finish_def Let_def emit_def computes_append warnings_append
                    time_in_compute_finish)

lemma publish_result:
  assumes g: "self_times s = Some ts" and r: "publish w fuel s = Some (Inr (), s')"
  shows "ts \<noteq> []
       \<and> self_times s' = None
       \<and> self_dt s' = self_dt s
       \<and> computes (trace s') = computes (trace s) @ ts
       \<and> warnings (trace s') =
           warnings (trace s)
           @ (if self_dt s \<le> to_sec (time_in_compute (trace s') - time_in_compute (trace s))
                              / real (length ts)
              then [''The average sampling time of the reference trajectory is higher than the execution time'']
              else [])
       \<and> (\<exists>pre. trace s' = pre @ [PublishDone, LogInfo ''Finish publishing queue''])"
proof -
  from g r obtain l where
    l: "publish_loop w ts (publish_advance s) (self_frequency s) (time_now w 0) fuel
          (publish_start w s ts) = Some (None, l)"
    and f: "publish_finish l = (Inr (), s')"
    by (auto simp: publish_def split: option.splits prod.splits)
  note e = publish_loop_exit[OF l]
  have n: "l_n l \<noteq> 0"
    using f by (auto simp: publish_finish_def Let_def split: if_splits)
  then have ne: "ts \<noteq> []" using e by auto
  have s': "s' = snd (publish_finish l)" using f by simp
  show ?thesis
    unfolding s' using publish_finish_facts[OF n] e ne by simp
qed

lemma publish_total:
  assumes g: "self_times s = Some ts" and ne: "ts \<noteq> []"
    and reach: "\<forall>j\<ge>K. real (length ts)
                  \<le> publish_advance s + to_sec (time_now w j - time_now w 0) * self_frequency s"
    and ok: "\<forall>t\<in>set ts. disc_compute w t = None"
    and fuel: "length ts + K \<le> fuel"
  shows "\<exists>s'. publish w fuel s = Some (Inr (), s')"
proof -
  have i: "K + 2 \<le> l_reads (publish_start w s ts) \<longrightarrow>
           l_nstar (publish_start w s ts) = real (length ts)"
  proof
    assume "K + 2 \<le> l_reads (publish_start w s ts)"
    then have "K = 0" by (simp add: publish_start_facts)
    then have "real (length ts) \<le> publish_advance s"
      using reach[rule_format, of 0] by (simp add: to_sec_def)
    then show "l_nstar (publish_start w s ts) = real (length ts)"
      by (simp add: publish_start_facts)
  qed
  have m: "(length ts - l_n (publish_start w s ts)) + (K + 2 - l_reads (publish_start w s ts))
            \<le> fuel"
    using fuel by (simp add: publish_start_facts)
  from publish_loop_terminates[OF reach ok i m] obtain l where
    l: "publish_loop w ts (publish_advance s) (self_frequency s) (time_now w 0) fuel
          (publish_start w s ts) = Some (None, l)" by blast
  have "l_n l \<noteq> 0" using publish_loop_exit[OF l] ne by simp
  then have "fst (publish_finish l) = Inr ()" by (rule publish_finish_facts)
  then have "publish w fuel s = Some (Inr (), snd (publish_finish l))"
    using g l by (simp add: publish_def prod_eq_iff)
  then show ?thesis by blast
qed

text \<open>
  C1. On a grid of \<open>M \<ge> 1\<close> sample times, when no \<^verbatim>\<open>compute\<close> call raises and the
  clock eventually lets the watermark reach \<open>M\<close> (from reading \<open>K\<close> on), \<^verbatim>\<open>publish\<close>
  returns, with any fuel of at least \<open>M + K\<close> passes: it has called \<^verbatim>\<open>compute\<close> exactly
  on \<open>times[0], ..., times[M-1]\<close>, in that order and once each, it has set
  \<^verbatim>\<open>self.times\<close> to \<open>None\<close>, and its last effects are the message on
  \<^verbatim>\<open>publish_done\<close> and the closing log.
\<close>

theorem publish_computes_every_sample:
  assumes "self_times s = Some ts" and "ts \<noteq> []"
    and "\<forall>t\<in>set ts. disc_compute w t = None"
    and "\<forall>j\<ge>K. real (length ts)
            \<le> publish_advance s + to_sec (time_now w j - time_now w 0) * self_frequency s"
    and "length ts + K \<le> fuel"
  shows "\<exists>s'. publish w fuel s = Some (Inr (), s')
            \<and> computes (trace s') = computes (trace s) @ ts
            \<and> self_times s' = None
            \<and> (\<exists>pre. trace s' = pre @ [PublishDone, LogInfo ''Finish publishing queue''])"
proof -
  from publish_total[OF assms(1,2,4,3,5)] obtain s' where
    r: "publish w fuel s = Some (Inr (), s')" by blast
  from publish_result[OF assms(1) r] show ?thesis using r by blast
qed

theorem publish_computes_every_sample_witness:
  "\<exists>s'. publish calm_world 7 loaded = Some (Inr (), s')
        \<and> computes (trace s') = [0, 1 / 10, 1 / 5, 3 / 10]
        \<and> self_times s' = None
        \<and> (\<exists>pre. trace s' = pre @ [PublishDone, LogInfo ''Finish publishing queue''])"
proof -
  have a: "self_times loaded = Some [0, 1 / 10, 1 / 5, 3 / 10]" "trace loaded = []"
    by (simp_all add: loaded_def fresh_def)
  have b: "[0, 1 / 10, 1 / 5, 3 / 10] \<noteq> ([] :: real list)" by simp
  have c: "\<forall>t\<in>set [0, 1 / 10, 1 / 5, 3 / 10]. disc_compute calm_world t = None"
    by (simp add: calm_world_def)
  have d: "\<forall>j\<ge>3. real (length [0, 1 / 10, 1 / 5, 3 / 10 :: real])
            \<le> publish_advance loaded
               + to_sec (time_now calm_world j - time_now calm_world 0) * self_frequency loaded"
    by (simp add: publish_advance_def loaded_def fresh_def calm_world_def to_sec_def)
  have e: "length [0, 1 / 10, 1 / 5, 3 / 10 :: real] + 3 \<le> 7" by simp
  show ?thesis
    using publish_computes_every_sample[OF a(1) b c d e] a(2) by simp
qed





section \<open>\<^verbatim>\<open>publishFirst\<close> followed by \<^verbatim>\<open>publish\<close>\<close>

lemma publishFirst_with_grid:
  "self_times s = Some (t # ts) \<Longrightarrow> disc_compute w t = None \<Longrightarrow>
   publishFirst w s = (Inr (True, []), emit (Compute t) s)"
  by (simp add: publishFirst_def Let_def numeral_eq_Suc)

lemma publishFirst_success_grid:
  assumes "self_times s = Some ts" and "fst (publishFirst w s) = Inr (True, [])"
  shows "ts \<noteq> [] \<and> disc_compute w (hd ts) = None"
proof -
  have "publishFirst_wait w 1000 0 s = s" using assms(1) by (simp add: numeral_eq_Suc)
  then show ?thesis
    using assms by (auto simp: publishFirst_def Let_def split: list.splits option.splits)
qed

text \<open>
  C10. A successful \<^verbatim>\<open>publishFirst\<close> on a grid leaves \<^verbatim>\<open>self.times\<close> as it was and
  calls \<^verbatim>\<open>compute\<close> on \<open>times[0]\<close> only; a \<^verbatim>\<open>publish\<close> that follows computes
  \<open>times[0]\<close> again and all \<open>M\<close> samples.
\<close>

theorem publishFirst_keeps_grid:
  assumes "self_times s = Some ts" and "fst (publishFirst w s) = Inr (True, [])"
    and "\<forall>t\<in>set ts. disc_compute w t = None"
    and "\<forall>j\<ge>K. real (length ts)
            \<le> publish_advance s + to_sec (time_now w j - time_now w 0) * self_frequency s"
    and "length ts + K \<le> fuel"
  shows "self_times (snd (publishFirst w s)) = Some ts
       \<and> computes (trace (snd (publishFirst w s))) = computes (trace s) @ [ts ! 0]
       \<and> (\<exists>s'. publish w fuel (snd (publishFirst w s)) = Some (Inr (), s')
                \<and> computes (trace s') = computes (trace s) @ [ts ! 0] @ ts)"
proof -
  from publishFirst_success_grid[OF assms(1,2)] obtain t rest where
    ts: "ts = t # rest" and c: "disc_compute w t = None"
    by (cases ts) auto
  let ?s1 = "emit (Compute t) s"
  have p: "publishFirst w s = (Inr (True, []), ?s1)"
    using publishFirst_with_grid[OF _ c] assms(1) ts by simp
  have g: "self_times ?s1 = Some ts" using assms(1) by (simp add: emit_def)
  have ne: "ts \<noteq> []" using ts by simp
  have reach: "\<forall>j\<ge>K. real (length ts)
            \<le> publish_advance ?s1 + to_sec (time_now w j - time_now w 0) * self_frequency ?s1"
    using assms(4) by (simp add: publish_advance_def emit_def)
  from publish_total[OF g ne reach assms(3,5)] obtain s' where
    r: "publish w fuel ?s1 = Some (Inr (), s')" by blast
  have "computes (trace s') = computes (trace ?s1) @ ts"
    using publish_result[OF g r] by blast
  moreover have "computes (trace ?s1) = computes (trace s) @ [ts ! 0]"
    by (simp add: emit_def computes_append ts)
  ultimately show ?thesis using p g r by simp
qed

theorem publishFirst_keeps_grid_witness:
  "self_times (snd (publishFirst calm_world loaded)) = Some [0, 1 / 10, 1 / 5, 3 / 10]
   \<and> computes (trace (snd (publishFirst calm_world loaded))) = [0]
   \<and> (\<exists>s'. publish calm_world 7 (snd (publishFirst calm_world loaded)) = Some (Inr (), s')
            \<and> computes (trace s') = [0, 0, 1 / 10, 1 / 5, 3 / 10])"
proof -
  have a: "self_times loaded = Some [0, 1 / 10, 1 / 5, 3 / 10]" "trace loaded = []"
    by (simp_all add: loaded_def fresh_def)
  have b: "fst (publishFirst calm_world loaded) = Inr (True, [])"
    using publishFirst_with_grid[of loaded 0 "[1 / 10, 1 / 5, 3 / 10]" calm_world] a
    by (simp add: calm_world_def)
  have c: "\<forall>t\<in>set [0, 1 / 10, 1 / 5, 3 / 10]. disc_compute calm_world t = None"
    by (simp add: calm_world_def)
  have d: "\<forall>j\<ge>3. real (length [0, 1 / 10, 1 / 5, 3 / 10 :: real])
            \<le> publish_advance loaded
               + to_sec (time_now calm_world j - time_now calm_world 0) * self_frequency loaded"
    by (simp add: publish_advance_def loaded_def fresh_def calm_world_def to_sec_def)
  have e: "length [0, 1 / 10, 1 / 5, 3 / 10 :: real] + 3 \<le> 7" by simp
  show ?thesis
    using publishFirst_keeps_grid[OF a(1) b c d e] a(2) by simp
qed


section \<open>The watermark\<close>

text \<open>
  The passes counted by \<open>publish_iter\<close> are those of the loop: when the loop returns
  within its fuel, it returns the state \<open>publish_iter\<close> reaches after as many passes.
\<close>

lemma publish_iter_front:
  "publish_iter w ts adv freq start (Suc k) l =
     (if l_n l < length ts then
        (case publish_body w ts adv freq start l of
           (Some e, l') \<Rightarrow> (Some e, l')
         | (None, l') \<Rightarrow> publish_iter w ts adv freq start k l')
      else (None, l))"
proof (induction k)
  case 0
  show ?case by (auto split: prod.splits option.splits)
next
  case (Suc k)
  have "publish_iter w ts adv freq start (Suc (Suc k)) l =
     (case publish_iter w ts adv freq start (Suc k) l of
        (Some e, l') \<Rightarrow> (Some e, l')
      | (None, l') \<Rightarrow>
          (if l_n l' < length ts then publish_body w ts adv freq start l' else (None, l')))"
    by simp
  also have "\<dots> = (if l_n l < length ts then
        (case publish_body w ts adv freq start l of
           (Some e, l') \<Rightarrow> (Some e, l')
         | (None, l') \<Rightarrow> publish_iter w ts adv freq start (Suc k) l')
      else (None, l))"
    unfolding Suc.IH by (auto split: prod.splits option.splits)
  finally show ?case .
qed

lemma publish_loop_iter:
  "publish_loop w ts adv freq start fuel l = Some r \<Longrightarrow>
   publish_iter w ts adv freq start fuel l = r"
proof (induction fuel arbitrary: l)
  case 0
  then show ?case by (auto split: if_splits)
next
  case (Suc fuel)
  show ?case
    unfolding publish_iter_front using Suc.prems Suc.IH
    by (auto split: if_splits prod.splits option.splits)
qed

lemma to_sec_mono: "a \<le> b \<Longrightarrow> to_sec a \<le> to_sec b"
  by (simp add: to_sec_def divide_right_mono)

lemma watermark_mono:
  assumes "0 \<le> freq" and "a \<le> b"
  shows "watermark ts adv freq start a \<le> watermark ts adv freq start b"
proof -
  have "to_sec (a - start) \<le> to_sec (b - start)" using assms(2) by (simp add: to_sec_mono)
  then have "to_sec (a - start) * freq \<le> to_sec (b - start) * freq"
    using assms(1) by (rule mult_right_mono)
  then show ?thesis by (simp add: watermark_def min_def)
qed

lemma watermark_le: "watermark ts adv freq start a \<le> real (length ts)"
  by (simp add: watermark_def)

lemma publish_body_watermark:
  assumes mono: "\<forall>i j. i \<le> j \<longrightarrow> time_now w i \<le> time_now w j" and f: "0 \<le> freq"
    and j: "j < l_reads l" and n: "l_nstar l = watermark ts adv freq start (time_now w j)"
    and b: "publish_body w ts adv freq start l = (x, l')"
  shows "l_nstar l \<le> l_nstar l'
       \<and> (\<exists>j'<l_reads l'. l_nstar l' = watermark ts adv freq start (time_now w j'))"
proof -
  have up: "\<And>i. l_reads l \<le> i \<Longrightarrow>
      watermark ts adv freq start (time_now w j) \<le> watermark ts adv freq start (time_now w i)"
    using mono j by (intro watermark_mono[OF f]) simp
  have k: "l_nstar l' = l_nstar l \<and> l_reads l \<le> l_reads l'
         \<or> l_nstar l' = watermark ts adv freq start (time_now w (l_reads l)) \<and> l_reads l' = l_reads l + 1
         \<or> l_nstar l' = watermark ts adv freq start (time_now w (l_reads l + 1)) \<and> l_reads l' = l_reads l + 2"
    using b by (auto simp: publish_body_def Let_def split: if_splits option.splits)
  then show ?thesis
  proof (elim disjE conjE)
    assume a: "l_nstar l' = l_nstar l" "l_reads l \<le> l_reads l'"
    then have "j < l_reads l'" using j by simp
    then show ?thesis using a(1) n by auto
  next
    assume a: "l_nstar l' = watermark ts adv freq start (time_now w (l_reads l))"
       "l_reads l' = l_reads l + 1"
    have "l_reads l < l_reads l'" using a by simp
    then show ?thesis using a(1) n up[of "l_reads l"] by auto
  next
    assume a: "l_nstar l' = watermark ts adv freq start (time_now w (l_reads l + 1))"
       "l_reads l' = l_reads l + 2"
    have "l_reads l + 1 < l_reads l'" using a by simp
    then show ?thesis using a(1) n up[of "l_reads l + 1"] by auto
  qed
qed

lemma publish_iter_watermark:
  assumes mono: "\<forall>i j. i \<le> j \<longrightarrow> time_now w i \<le> time_now w j" and f: "0 \<le> freq"
    and i: "\<exists>j<l_reads l. l_nstar l = watermark ts adv freq start (time_now w j)"
  shows "(\<exists>j<l_reads (snd (publish_iter w ts adv freq start k l)).
            l_nstar (snd (publish_iter w ts adv freq start k l))
              = watermark ts adv freq start (time_now w j))
       \<and> l_nstar (snd (publish_iter w ts adv freq start k l))
           \<le> l_nstar (snd (publish_iter w ts adv freq start (Suc k) l))"
proof (induction k)
  case 0
  obtain x l' where b: "publish_body w ts adv freq start l = (x, l')"
    by (cases "publish_body w ts adv freq start l")
  from i obtain j where j: "j < l_reads l" "l_nstar l = watermark ts adv freq start (time_now w j)"
    by blast
  show ?case using i publish_body_watermark[OF mono f j b] b by simp
next
  case (Suc k)
  obtain y l1 where s: "publish_iter w ts adv freq start (Suc k) l = (y, l1)"
    by (cases "publish_iter w ts adv freq start (Suc k) l")
  obtain y0 l0 where s0: "publish_iter w ts adv freq start k l = (y0, l0)"
    by (cases "publish_iter w ts adv freq start k l")
  obtain x l2 where b: "publish_body w ts adv freq start l1 = (x, l2)"
    by (cases "publish_body w ts adv freq start l1")
  obtain x0 l3 where b0: "publish_body w ts adv freq start l0 = (x0, l3)"
    by (cases "publish_body w ts adv freq start l0")
  from Suc.IH s0 obtain j0 where
    j0: "j0 < l_reads l0" "l_nstar l0 = watermark ts adv freq start (time_now w j0)"
    by auto
  have inv1: "\<exists>j<l_reads l1. l_nstar l1 = watermark ts adv freq start (time_now w j)"
    using s s0 b0 j0 publish_body_watermark[OF mono f j0 b0]
    by (auto split: option.splits if_splits)
  then obtain j1 where
    j1: "j1 < l_reads l1" "l_nstar l1 = watermark ts adv freq start (time_now w j1)"
    by blast
  have "l_nstar l1 \<le> l_nstar (snd (publish_iter w ts adv freq start (Suc (Suc k)) l))"
    using s b publish_body_watermark[OF mono f j1 b]
    by (auto split: option.splits if_splits)
  then show ?case using inv1 s by simp
qed

text \<open>
  C2. With clock readings that never decrease and a non-negative frequency, the watermark
  \<^verbatim>\<open>nstar\<close> starts at \<open>min(advance, M)\<close>, never decreases from one pass of the loop of
  \<^verbatim>\<open>publish\<close> to the next, and never exceeds \<open>M\<close>.
\<close>

theorem watermark_never_decreases:
  assumes "\<forall>i j. i \<le> j \<longrightarrow> time_now w i \<le> time_now w j" and "0 \<le> self_frequency s"
  shows "l_nstar (publish_start w s ts) = min (publish_advance s) (real (length ts))
       \<and> l_nstar (snd (publish_iter w ts (publish_advance s) (self_frequency s) (time_now w 0) k
                         (publish_start w s ts)))
           \<le> l_nstar (snd (publish_iter w ts (publish_advance s) (self_frequency s) (time_now w 0)
                              (Suc k) (publish_start w s ts)))
       \<and> l_nstar (snd (publish_iter w ts (publish_advance s) (self_frequency s) (time_now w 0) k
                         (publish_start w s ts)))
           \<le> real (length ts)"
proof -
  have i: "\<exists>j<l_reads (publish_start w s ts).
             l_nstar (publish_start w s ts)
               = watermark ts (publish_advance s) (self_frequency s) (time_now w 0) (time_now w j)"
    by (rule exI[of _ 0]) (simp add: publish_start_facts watermark_def to_sec_def)
  from publish_iter_watermark[OF assms i, of k] show ?thesis
    using watermark_le by (auto simp: publish_start_facts)
qed

theorem watermark_never_decreases_witness:
  "l_nstar (publish_start calm_world loaded [0, 1 / 10, 1 / 5, 3 / 10]) = 3 / 2
   \<and> (\<forall>k. l_nstar (snd (publish_iter calm_world [0, 1 / 10, 1 / 5, 3 / 10]
                            (publish_advance loaded) (self_frequency loaded)
                            (time_now calm_world 0) k
                            (publish_start calm_world loaded [0, 1 / 10, 1 / 5, 3 / 10])))
           \<le> l_nstar (snd (publish_iter calm_world [0, 1 / 10, 1 / 5, 3 / 10]
                            (publish_advance loaded) (self_frequency loaded)
                            (time_now calm_world 0) (Suc k)
                            (publish_start calm_world loaded [0, 1 / 10, 1 / 5, 3 / 10]))))
   \<and> (\<forall>k. l_nstar (snd (publish_iter calm_world [0, 1 / 10, 1 / 5, 3 / 10]
                            (publish_advance loaded) (self_frequency loaded)
                            (time_now calm_world 0) k
                            (publish_start calm_world loaded [0, 1 / 10, 1 / 5, 3 / 10])))
           \<le> 4)"
proof -
  have m: "\<forall>i j. i \<le> j \<longrightarrow> time_now calm_world i \<le> time_now calm_world j"
    by (simp add: calm_world_def)
  have f: "0 \<le> self_frequency loaded" "publish_advance loaded = 3 / 2"
    by (simp_all add: loaded_def fresh_def publish_advance_def)
  note t = watermark_never_decreases[OF m f(1), of "[0, 1 / 10, 1 / 5, 3 / 10]"]
  have a: "l_nstar (publish_start calm_world loaded [0, 1 / 10, 1 / 5, 3 / 10]) = 3 / 2"
    using t[of 0] by (simp add: f(2))
  have b: "\<forall>k. l_nstar (snd (publish_iter calm_world [0, 1 / 10, 1 / 5, 3 / 10]
                            (publish_advance loaded) (self_frequency loaded)
                            (time_now calm_world 0) k
                            (publish_start calm_world loaded [0, 1 / 10, 1 / 5, 3 / 10])))
           \<le> l_nstar (snd (publish_iter calm_world [0, 1 / 10, 1 / 5, 3 / 10]
                            (publish_advance loaded) (self_frequency loaded)
                            (time_now calm_world 0) (Suc k)
                            (publish_start calm_world loaded [0, 1 / 10, 1 / 5, 3 / 10])))"
    using t by blast
  have c: "\<forall>k. l_nstar (snd (publish_iter calm_world [0, 1 / 10, 1 / 5, 3 / 10]
                            (publish_advance loaded) (self_frequency loaded)
                            (time_now calm_world 0) k
                            (publish_start calm_world loaded [0, 1 / 10, 1 / 5, 3 / 10])))
           \<le> 4"
  proof
    fix k
    have "real (length [0, 1 / 10, 1 / 5, 3 / 10 :: real]) = 4" by simp
    then show "l_nstar (snd (publish_iter calm_world [0, 1 / 10, 1 / 5, 3 / 10]
                            (publish_advance loaded) (self_frequency loaded)
                            (time_now calm_world 0) k
                            (publish_start calm_world loaded [0, 1 / 10, 1 / 5, 3 / 10])))
           \<le> 4"
      using t[of k] by presburger
  qed
  show ?thesis using a b c by blast
qed

end
